theory Spec2Isabelle
  imports Main "HOL-Library.Sublist"
begin

section \<open>Python string primitives\<close>

text \<open>
  A \<^typ>\<open>string\<close> is a list of characters; one \<^typ>\<open>char\<close> stands for one code point
  of a Python \<open>str\<close> (the code points below 256). \<open>str.strip()\<close>, \<open>str.isspace()\<close>
  and the regular expression class \<open>\s\<close> of a \<open>str\<close> pattern share one notion of
  white space: the code points 9 to 13, 28 to 32, 133 and 160 in that range.
\<close>

definition newline :: char where
  "newline = CHR 0x0A"

definition tab :: char where
  "tab = CHR 0x09"

definition is_space :: "char \<Rightarrow> bool" where
  "is_space c =
     (let n = (of_char c :: nat)
      in (9 \<le> n \<and> n \<le> 13) \<or> (28 \<le> n \<and> n \<le> 32) \<or> n = 133 \<or> n = 160)"

text \<open>\<open>s.strip()\<close>: leading and trailing white space removed.\<close>

definition strip :: "string \<Rightarrow> string" where
  "strip s = rev (dropWhile is_space (rev (dropWhile is_space s)))"

text \<open>\<open>s.startswith(p)\<close>.\<close>

definition startswith :: "string \<Rightarrow> string \<Rightarrow> bool" where
  "startswith s p = prefix p s"

text \<open>\<open>s.split('\n')\<close>: always at least one piece; the pieces hold no newline.\<close>

fun split_nl :: "string \<Rightarrow> string list" where
  "split_nl [] = [[]]"
| "split_nl (c # cs) =
     (if c = newline then [] # split_nl cs
      else (case split_nl cs of
              [] \<Rightarrow> [[c]]
            | l # ls \<Rightarrow> (c # l) # ls))"

text \<open>\<open>'\n'.join(ls)\<close>.\<close>

fun join_nl :: "string list \<Rightarrow> string" where
  "join_nl [] = []"
| "join_nl [l] = l"
| "join_nl (l # l' # ls) = l @ newline # join_nl (l' # ls)"

text \<open>\<open>s.replace('\t', ' ' * 4)\<close>.\<close>

definition replace_tabs :: "string \<Rightarrow> string" where
  "replace_tabs s = concat (map (\<lambda>c. if c = tab then ''    '' else [c]) s)"

text \<open>\<open>xs.index(x)\<close>: the first position of \<open>x\<close>, \<open>None\<close> where Python raises ValueError.\<close>

fun index_of :: "'a list \<Rightarrow> 'a \<Rightarrow> nat option" where
  "index_of [] x = None"
| "index_of (y # ys) x =
     (if y = x then Some 0 else map_option Suc (index_of ys x))"

text \<open>\<open>p in s\<close> on strings: \<open>p\<close> occurs in \<open>s\<close> as a contiguous run.\<close>

definition contains :: "string \<Rightarrow> string \<Rightarrow> bool" where
  "contains s p = sublist p s"



section \<open>The README state machine (\<open>doc.py\<close>)\<close>

text \<open>
  The states and the transition table of \<open>_ReadMeMachine\<close>. A trigger fired from a
  state that is not its source raises \<open>MachineError\<close>, as a \<open>transitions.Machine\<close>
  does by default.
\<close>

datatype machine_state = Readme | New

datatype trigger = Start_new | End

datatype error =
    KeyError string
  | MachineError trigger machine_state
  | IndexError

definition transitions :: "(trigger \<times> machine_state \<times> machine_state) list" where
  "transitions = [(Start_new, Readme, New), (End, New, Readme)]"

definition fire :: "trigger \<Rightarrow> machine_state \<Rightarrow> error + machine_state" where
  "fire trig st =
     (case find (\<lambda>(t, src, dst). t = trig \<and> src = st) transitions of
        None \<Rightarrow> Inl (MachineError trig st)
      | Some (t, src, dst) \<Rightarrow> Inr dst)"

record ReadMeMachine =
  state :: machine_state
  readme_lines :: "string list"

text \<open>
  A compiled pattern, as \<open>parse\<close> uses it: \<open>comment_pattern.match(line)\<close> is \<open>None\<close>
  when the line does not match at its start, and otherwise carries \<open>group(1)\<close>.
\<close>

type_synonym pattern = "string \<Rightarrow> string option"

type_synonym new_text = "string \<rightharpoonup> string list"

definition is_closer :: "string \<Rightarrow> bool" where
  "is_closer line = startswith (strip line) ''<!-- /''"

text \<open>
  The tail of the loop body: \<open>new_line = self.readme_lines[-1]\<close> raises IndexError on
  an empty list; the logging that follows changes nothing.
\<close>

definition log_line :: "ReadMeMachine \<Rightarrow> error + ReadMeMachine" where
  "log_line m = (if readme_lines m = [] then Inl IndexError else Inr m)"

text \<open>One iteration of the loop of \<open>parse\<close>.\<close>

definition parse_line :: "pattern \<Rightarrow> new_text \<Rightarrow> ReadMeMachine \<Rightarrow> string \<Rightarrow> error + ReadMeMachine" where
  "parse_line comment_pattern new_text m line =
     (case comment_pattern line of
        Some key \<Rightarrow>
          (let m1 = m\<lparr>readme_lines := readme_lines m @ [line]\<rparr>
           in if is_closer line then
                (case fire End (state m1) of
                   Inl e \<Rightarrow> Inl e
                 | Inr st \<Rightarrow> log_line (m1\<lparr>state := st\<rparr>))
              else
                (case new_text key of
                   None \<Rightarrow> Inl (KeyError key)
                 | Some new \<Rightarrow>
                     (let m2 = m1\<lparr>readme_lines := readme_lines m1 @ [''''] @ new @ ['''']\<rparr>
                      in case fire Start_new (state m2) of
                           Inl e \<Rightarrow> Inl e
                         | Inr st \<Rightarrow> log_line (m2\<lparr>state := st\<rparr>))))
      | None \<Rightarrow>
          (if state m = Readme
           then log_line (m\<lparr>readme_lines := readme_lines m @ [line]\<rparr>)
           else log_line m))"

fun parse_loop :: "pattern \<Rightarrow> new_text \<Rightarrow> ReadMeMachine \<Rightarrow> string list \<Rightarrow> error + ReadMeMachine" where
  "parse_loop comment_pattern new_text m [] = Inr m"
| "parse_loop comment_pattern new_text m (line # lines) =
     (case parse_line comment_pattern new_text m line of
        Inl e \<Rightarrow> Inl e
      | Inr m' \<Rightarrow> parse_loop comment_pattern new_text m' lines)"

text \<open>
  \<open>_ReadMeMachine.parse\<close>: the list is reset, the state is the one the machine is in;
  the result is \<open>self.readme_lines\<close>.
\<close>

definition parse_machine :: "ReadMeMachine \<Rightarrow> string list \<Rightarrow> pattern \<Rightarrow> new_text \<Rightarrow> error + ReadMeMachine" where
  "parse_machine self lines comment_pattern new_text =
     parse_loop comment_pattern new_text (self\<lparr>readme_lines := []\<rparr>) lines"

text \<open>\<open>_ReadMeMachine()\<close>: a new machine is in its initial state \<open>readme\<close>.\<close>

definition new_machine :: ReadMeMachine where
  "new_machine = \<lparr>state = Readme, readme_lines = []\<rparr>"

definition parse :: "string list \<Rightarrow> pattern \<Rightarrow> new_text \<Rightarrow> error + string list" where
  "parse lines comment_pattern new_text =
     map_sum id readme_lines (parse_machine new_machine lines comment_pattern new_text)"



subsection \<open>The two patterns of \<open>doc.py\<close>\<close>

text \<open>
  \<open>re.compile(r'<!-- /?(COVERAGE) -->')\<close> under \<open>match\<close>: the line starts with the
  opening or the closing comment; \<open>group(1)\<close> is \<open>COVERAGE\<close>.
\<close>

definition coverage_pattern :: pattern where
  "coverage_pattern line =
     (if prefix ''<!-- COVERAGE -->'' line \<or> prefix ''<!-- /COVERAGE -->'' line
      then Some ''COVERAGE'' else None)"

text \<open>
  The part of a string before the last occurrence of a separator: what a greedy \<open>.*\<close>
  takes when the separator has to follow it.
\<close>

fun before_last :: "string \<Rightarrow> string \<Rightarrow> string option" where
  "before_last sep [] = (if sep = [] then Some [] else None)"
| "before_last sep (c # cs) =
     (case before_last sep cs of
        Some p \<Rightarrow> Some (c # p)
      | None \<Rightarrow> (if prefix sep (c # cs) then Some [] else None))"

text \<open>
  \<open>re.compile(r'\s*<!-- /?(CODE:.*) -->')\<close> under \<open>match\<close>: white space, the comment
  opening, an optional slash, and \<open>group(1)\<close> running from \<open>CODE:\<close> to the last
  \<open> -->\<close> of the line (\<open>.\<close> stops at a newline).
\<close>

definition code_pattern :: pattern where
  "code_pattern line =
     (let s = dropWhile is_space line
      in if prefix ''<!-- '' s then
           (let s1 = drop 5 s;
                s2 = (if prefix ''/'' s1 then drop 1 s1 else s1)
            in if prefix ''CODE:'' s2 then
                 (case before_last '' -->'' (takeWhile (\<lambda>c. c \<noteq> newline) (drop 5 s2)) of
                    None \<Rightarrow> None
                  | Some body \<Rightarrow> Some (''CODE:'' @ body))
               else None)
         else None)"


section \<open>The package \<open>__init__.py\<close> (\<open>doc.py\<close>)\<close>

definition INIT_DIVIDER :: string where
  "INIT_DIVIDER =
     ''# '' @ replicate 15 (CHR ''='')
       @ '' Above is Auto-Generated by calcipy. User content goes below ''
       @ replicate 15 (CHR ''='')"

text \<open>\<open>_LOGGER_CONFIG.format(docstring=..., pkg_version=..., pkg_name=...)\<close>.\<close>

definition LOGGER_CONFIG :: "string \<Rightarrow> string \<Rightarrow> string \<Rightarrow> string" where
  "LOGGER_CONFIG docstring pkg_version pkg_name =
     docstring @ [newline, newline]
       @ ''from loguru import logger'' @ [newline, newline]
       @ ''__version__ = '' @ [CHR 0x27] @ pkg_version @ [CHR 0x27, newline]
       @ ''__pkg_name__ = '' @ [CHR 0x27] @ pkg_name @ [CHR 0x27, newline, newline]
       @ ''logger.disable(__pkg_name__)'' @ [newline]"

text \<open>
  \<open>_write_pkg_init\<close>: the text written to \<open>__init__.py\<close>, from the package name and
  version of the global settings and the text the file holds.
\<close>

definition write_pkg_init :: "string \<Rightarrow> string \<Rightarrow> string \<Rightarrow> string" where
  "write_pkg_init pkg_name pkg_version existing =
     (let init_text =
            LOGGER_CONFIG (replicate 3 (CHR 0x22) @ pkg_name @ ''.'' @ replicate 3 (CHR 0x22))
              pkg_version pkg_name
            @ [newline] @ INIT_DIVIDER;
          init_lines = split_nl (strip existing);
          user_text =
            (case index_of init_lines INIT_DIVIDER of
               Some i \<Rightarrow> join_nl (drop (i + 1) init_lines)
             | None \<Rightarrow> [])
      in strip (replace_tabs init_text @ user_text) @ [newline])"


section \<open>The tag collector (\<open>tag_collector.py\<close>)\<close>

record TaggedComment =
  lineno :: int
  tag :: string
  comment_text :: string

text \<open>
  A compiled tag expression, as \<open>_search_lines\<close> uses it: \<open>regex_compiled.search(line)\<close>
  is \<open>None\<close> or carries the groups \<open>tag\<close> and \<open>text\<close>.
\<close>

type_synonym tag_regex = "string \<Rightarrow> (string \<times> string) option"

definition tags :: "string list" where
  "tags = [''DEBUG'', ''FIXME'', ''FYI'', ''HACK'', ''NOTE'', ''PLANNED'', ''REVIEW'', ''TBD'', ''TODO'']"

text \<open>
  The default expression \<open>((\s|\()(?P<tag>...)(:[^\r\n]))(?P<text>.+)\<close>. After the
  white space or parenthesis: a tag, a colon, one character that is no line break, and
  the text, at least one character, up to the next newline.
\<close>

fun match_tags :: "string list \<Rightarrow> string \<Rightarrow> (string \<times> string) option" where
  "match_tags [] s = None"
| "match_tags (t # ts) s =
     (if prefix t s then
        (case drop (length t) s of
           colon # c # rest \<Rightarrow>
             (if colon = CHR '':'' \<and> c \<noteq> CHR 0x0D \<and> c \<noteq> newline
                 \<and> takeWhile (\<lambda>x. x \<noteq> newline) rest \<noteq> []
              then Some (t, takeWhile (\<lambda>x. x \<noteq> newline) rest)
              else match_tags ts s)
         | _ \<Rightarrow> match_tags ts s)
      else match_tags ts s)"

definition match_here :: "string \<Rightarrow> (string \<times> string) option" where
  "match_here s =
     (case s of
        [] \<Rightarrow> None
      | c # rest \<Rightarrow> (if is_space c \<or> c = CHR ''('' then match_tags tags rest else None))"

text \<open>\<open>_COMPILED_RE.search\<close>: the leftmost position where the expression matches.\<close>

fun COMPILED_RE :: tag_regex where
  "COMPILED_RE [] = None"
| "COMPILED_RE (c # cs) =
     (case match_here (c # cs) of
        Some r \<Rightarrow> Some r
      | None \<Rightarrow> COMPILED_RE cs)"

text \<open>
  The loop of \<open>_search_lines\<close>; \<open>i\<close> is the index \<open>enumerate\<close> gives the line, and
  \<open>break\<close> returns the comments collected so far.
\<close>

fun search_loop :: "tag_regex \<Rightarrow> int \<Rightarrow> string list \<Rightarrow> TaggedComment list \<Rightarrow> TaggedComment list" where
  "search_loop regex_compiled i [] comments = comments"
| "search_loop regex_compiled i (line # lines) comments =
     (let found = regex_compiled line
      in if i \<le> 3 \<and> contains line '':skip_tags:'' then comments
         else (case found of
                 Some (tg, tx) \<Rightarrow>
                   search_loop regex_compiled (i + 1) lines
                     (comments @ [\<lparr>lineno = i + 1, tag = tg, comment_text = tx\<rparr>])
               | None \<Rightarrow> search_loop regex_compiled (i + 1) lines comments))"

definition search_lines :: "string list \<Rightarrow> tag_regex \<Rightarrow> TaggedComment list" where
  "search_lines lines regex_compiled = search_loop regex_compiled 0 lines []"


section \<open>Notions of the specification\<close>

text \<open>
  The lines outside every marked region, in their order: the lines read in the
  passthrough state that are no marker. A closing marker leaves the region, any other
  marker enters one.
\<close>

fun outside_lines :: "pattern \<Rightarrow> machine_state \<Rightarrow> string list \<Rightarrow> string list" where
  "outside_lines p st [] = []"
| "outside_lines p st (l # ls) =
     (case p l of
        Some key \<Rightarrow> outside_lines p (if is_closer l then Readme else New) ls
      | None \<Rightarrow> (if st = Readme then l # outside_lines p st ls else outside_lines p st ls))"

text \<open>
  Every tagged comment of a run of lines, the skip directive left aside: one comment for
  each line the expression matches, numbered from \<open>i + 1\<close>.
\<close>

fun matches_from :: "tag_regex \<Rightarrow> int \<Rightarrow> string list \<Rightarrow> TaggedComment list" where
  "matches_from rx i [] = []"
| "matches_from rx i (l # ls) =
     (case rx l of
        Some (tg, tx) \<Rightarrow> [\<lparr>lineno = i + 1, tag = tg, comment_text = tx\<rparr>]
      | None \<Rightarrow> [])
     @ matches_from rx (i + 1) ls"



section \<open>Properties of the README state machine\<close>

lemma fire_End [simp]: "fire End New = Inr Readme" "fire End Readme = Inl (MachineError End Readme)"
  by (simp_all add: fire_def transitions_def)

lemma fire_Start_new [simp]:
  "fire Start_new Readme = Inr New" "fire Start_new New = Inl (MachineError Start_new New)"
  by (simp_all add: fire_def transitions_def)

lemma parse_loop_append:
  "parse_loop p n m (xs @ ys) =
     (case parse_loop p n m xs of Inl e \<Rightarrow> Inl e | Inr m' \<Rightarrow> parse_loop p n m' ys)"
proof (induction xs arbitrary: m)
  case Nil
  show ?case by simp
next
  case (Cons x xs)
  show ?case
    by (cases "parse_line p n m x") (simp_all add: Cons.IH)
qed

lemma parse_line_opener:
  assumes "p line = Some key" "\<not> is_closer line" "n key = Some r" "state m = Readme"
  shows "parse_line p n m line =
           Inr \<lparr>state = New, readme_lines = readme_lines m @ line # [] # r @ [[]]\<rparr>"
  using assms by (simp add: parse_line_def log_line_def)

lemma parse_line_missing_key:
  assumes "p line = Some key" "\<not> is_closer line" "n key = None"
  shows "parse_line p n m line = Inl (KeyError key)"
  using assms by (simp add: parse_line_def)

lemma parse_line_closer:
  assumes "p line = Some key" "is_closer line" "state m = New"
  shows "parse_line p n m line = Inr \<lparr>state = Readme, readme_lines = readme_lines m @ [line]\<rparr>"
  using assms by (simp add: parse_line_def log_line_def)

lemma parse_line_outside:
  assumes "p line = None" "state m = Readme"
  shows "parse_line p n m line = Inr \<lparr>state = Readme, readme_lines = readme_lines m @ [line]\<rparr>"
  using assms by (simp add: parse_line_def log_line_def)


lemma parse_line_New_Inr:
  assumes "parse_line p n m line = Inr m'" "state m = New"
  shows "(p line = None \<and> m' = m \<and> readme_lines m \<noteq> []) \<or>
         (p line \<noteq> None \<and> is_closer line \<and>
            m' = \<lparr>state = Readme, readme_lines = readme_lines m @ [line]\<rparr>)"
proof (cases "p line")
  case None
  with assms show ?thesis
    by (simp add: parse_line_def log_line_def split: if_splits)
next
  case (Some key)
  show ?thesis
  proof (cases "is_closer line")
    case True
    from parse_line_closer[of p line key m n, OF Some True assms(2)] assms(1) Some True
    show ?thesis by simp
  next
    case False
    show ?thesis
    proof (cases "n key")
      case None
      with Some False assms(1) show ?thesis by (simp add: parse_line_def)
    next
      case (Some r)
      with \<open>p line = Some key\<close> False assms show ?thesis
        by (simp add: parse_line_def)
    qed
  qed
qed


lemma parse_loop_no_closer:
  assumes "parse_loop p n m ls = Inr m'" "state m = New"
    and "\<forall>l\<in>set ls. \<not> (p l \<noteq> None \<and> is_closer l)"
  shows "m' = m \<and> (\<forall>l\<in>set ls. p l = None)"
  using assms
proof (induction ls)
  case Nil
  then show ?case by simp
next
  case (Cons l ls)
  from Cons.prems(1) obtain m1 where s: "parse_line p n m l = Inr m1"
    and r: "parse_loop p n m1 ls = Inr m'"
    by (cases "parse_line p n m l") simp_all
  have nc: "\<not> (p l \<noteq> None \<and> is_closer l)"
    using Cons.prems(3) by simp
  from parse_line_New_Inr[OF s Cons.prems(2)] nc
  have pl: "p l = None" and m1: "m1 = m" by blast+
  have rest: "\<forall>l\<in>set ls. \<not> (p l \<noteq> None \<and> is_closer l)"
    using Cons.prems(3) by simp
  from r m1 have "parse_loop p n m ls = Inr m'" by simp
  from Cons.IH[OF this Cons.prems(2) rest] pl show ?case by simp
qed

lemma parse_line_grows:
  assumes "parse_line p n m line = Inr m'"
  shows "\<exists>d. readme_lines m' = readme_lines m @ d"
proof (cases "p line")
  case None
  with assms show ?thesis
    by (cases "state m = Readme") (auto simp: parse_line_def log_line_def split: if_splits)
next
  case (Some key)
  show ?thesis
  proof (cases "is_closer line")
    case True
    with Some assms show ?thesis
      by (cases "state m") (auto simp: parse_line_def log_line_def)
  next
    case False
    show ?thesis
    proof (cases "n key")
      case None
      with Some False assms show ?thesis by (simp add: parse_line_def)
    next
      case (Some r)
      with \<open>p line = Some key\<close> False assms show ?thesis
        by (cases "state m") (auto simp: parse_line_def log_line_def)
    qed
  qed
qed

lemma parse_loop_grows:
  assumes "parse_loop p n m ls = Inr m'"
  shows "\<exists>d. readme_lines m' = readme_lines m @ d"
  using assms
proof (induction ls arbitrary: m)
  case Nil
  then show ?case by simp
next
  case (Cons l ls)
  from Cons.prems obtain m1 where s: "parse_line p n m l = Inr m1"
    and r: "parse_loop p n m1 ls = Inr m'"
    by (auto split: sum.splits)
  from parse_line_grows[OF s] Cons.IH[OF r] show ?case by auto
qed

lemma parse_Inr_iff:
  "parse ls p n = Inr out \<longleftrightarrow> (\<exists>m. parse_machine new_machine ls p n = Inr m \<and> readme_lines m = out)"
  by (cases "parse_machine new_machine ls p n") (simp_all add: parse_def)

lemma parse_machine_append:
  "parse_machine self (xs @ ys) p n =
     (case parse_machine self xs p n of Inl e \<Rightarrow> Inl e | Inr m' \<Rightarrow> parse_loop p n m' ys)"
  by (simp add: parse_machine_def parse_loop_append)

text \<open>
  Claim C4. An opening marker whose key the replacement map lacks makes the splice raise:
  when the lines before it are parsed without error, the splice ends in the KeyError of
  that key, in either state of the machine; otherwise it has ended in the earlier error.
  No output is produced.
\<close>

theorem lookup_mismatch_raises:
  assumes "comment_pattern line = Some key" and "\<not> is_closer line" and "new_text key = None"
  shows "parse (pre @ line # post) comment_pattern new_text =
           (case parse pre comment_pattern new_text of
              Inl e \<Rightarrow> Inl e
            | Inr out \<Rightarrow> Inl (KeyError key))"
proof (cases "parse_machine new_machine pre comment_pattern new_text")
  case (Inl e)
  then show ?thesis by (simp add: parse_def parse_machine_append)
next
  case (Inr m)
  then show ?thesis
    using parse_line_missing_key[where p = comment_pattern and n = new_text and m = m, OF assms]
    by (simp add: parse_def parse_machine_append)
qed

theorem lookup_mismatch_raises_witness:
  "parse [''a'', ''<!-- COVERAGE -->'', ''b''] coverage_pattern Map.empty
     = Inl (KeyError ''COVERAGE'')"
proof -
  have h1: "coverage_pattern ''<!-- COVERAGE -->'' = Some ''COVERAGE''"
    by (simp add: coverage_pattern_def)
  have h2: "\<not> is_closer ''<!-- COVERAGE -->''"
    by (simp add: is_closer_def strip_def startswith_def is_space_def)
  have h3: "(Map.empty :: new_text) ''COVERAGE'' = None"
    by simp
  have h4: "parse [''a''] coverage_pattern Map.empty = Inr [''a'']"
    by (simp add: parse_def parse_machine_def new_machine_def parse_line_def log_line_def
        coverage_pattern_def)
  from lookup_mismatch_raises[where comment_pattern = coverage_pattern
      and new_text = Map.empty and pre = "[''a'']" and post = "[''b'']", OF h1 h2 h3] h4
  show ?thesis by simp
qed

lemmas splice_eval =
  parse_def parse_machine_def new_machine_def parse_line_def log_line_def
  coverage_pattern_def is_closer_def strip_def startswith_def is_space_def

lemma parse_machine_new:
  "parse_machine new_machine ls p n = parse_loop p n new_machine ls"
  by (simp add: parse_machine_def new_machine_def)

lemma parse_loop_snoc_opener:
  assumes "parse_loop p n new_machine pre = Inr m" "state m = Readme"
    and "p opener = Some key" "\<not> is_closer opener" "n key = Some r"
  shows "parse_loop p n new_machine (pre @ [opener]) =
           Inr \<lparr>state = New, readme_lines = readme_lines m @ opener # [] # r @ [[]]\<rparr>"
  using assms parse_line_opener[where p = p and n = n and m = m and line = opener and key = key and r = r]
  by (simp add: parse_loop_append)

text \<open>
  Claim C9, amended. An opening marker read in the passthrough state and followed by no
  closing marker of any key up to the end of the input: when the splice returns, its
  output is the output up to and with the opening marker and the injected lines, which is
  the output of the input cut after the opening marker. No line after the opening marker
  adds anything to the output (and none of them matches the pattern, or the splice would
  have raised).
\<close>

theorem unterminated_region_drops_rest:
  assumes "parse_machine new_machine pre comment_pattern new_text = Inr m"
    and "state m = Readme"
    and "comment_pattern opener = Some key" and "\<not> is_closer opener"
    and "\<forall>l\<in>set post. \<not> (comment_pattern l \<noteq> None \<and> is_closer l)"
    and "parse (pre @ opener # post) comment_pattern new_text = Inr out"
  shows "\<exists>r. new_text key = Some r
           \<and> out = readme_lines m @ opener # ('''' # r @ [''''])
           \<and> parse (pre @ [opener]) comment_pattern new_text = Inr out
           \<and> (\<forall>l\<in>set post. comment_pattern l = None)"
proof -
  let ?p = comment_pattern and ?n = new_text
  have pre: "parse_loop ?p ?n new_machine pre = Inr m"
    using assms(1) by (simp add: parse_machine_new)
  from assms(6) obtain mf where mf: "parse_loop ?p ?n new_machine (pre @ opener # post) = Inr mf"
    and out: "readme_lines mf = out"
    by (auto simp: parse_Inr_iff parse_machine_new)
  from mf pre obtain m1 where s1: "parse_line ?p ?n m opener = Inr m1"
    and r1: "parse_loop ?p ?n m1 post = Inr mf"
    by (cases "parse_line ?p ?n m opener") (simp_all add: parse_loop_append)
  obtain r where r: "new_text key = Some r"
  proof (cases "new_text key")
    case None
    from parse_line_missing_key[where p = ?p and n = ?n and m = m, OF assms(3) assms(4) None] s1
    show ?thesis by simp
  next
    case (Some r)
    then show ?thesis by (rule that)
  qed
  from parse_line_opener[where p = ?p and n = ?n and m = m, OF assms(3) assms(4) r assms(2)] s1
  have m1: "m1 = \<lparr>state = New, readme_lines = readme_lines m @ opener # [] # r @ [[]]\<rparr>"
    by simp
  then have st1: "state m1 = New" by simp
  from parse_loop_no_closer[OF r1 st1 assms(5)]
  have mf1: "mf = m1" and nomatch: "\<forall>l\<in>set post. comment_pattern l = None" by simp_all
  from parse_loop_snoc_opener[OF pre assms(2) assms(3) assms(4) r]
  have "parse (pre @ [opener]) ?p ?n = Inr (readme_lines m @ opener # [] # r @ [[]])"
    by (simp add: parse_def parse_machine_new)
  with r out mf1 m1 nomatch show ?thesis by simp
qed

theorem unterminated_region_drops_rest_witness:
  "parse [''# Title'', ''  <!-- CODE:tests/examples/readme.py -->'', ''old'', ''tail'']
      code_pattern [''CODE:tests/examples/readme.py'' \<mapsto> [''```py'', ''x = 1'', ''```'']]
     = Inr [''# Title'', ''  <!-- CODE:tests/examples/readme.py -->'',
            '''', ''```py'', ''x = 1'', ''```'', '''']
   \<and> parse [''# Title'', ''  <!-- CODE:tests/examples/readme.py -->'']
      code_pattern [''CODE:tests/examples/readme.py'' \<mapsto> [''```py'', ''x = 1'', ''```'']]
     = Inr [''# Title'', ''  <!-- CODE:tests/examples/readme.py -->'',
            '''', ''```py'', ''x = 1'', ''```'', '''']"
proof -
  let ?n = "[''CODE:tests/examples/readme.py'' \<mapsto> [''```py'', ''x = 1'', ''```'']] :: new_text"
  let ?o = "''  <!-- CODE:tests/examples/readme.py -->''"
  let ?m = "\<lparr>state = Readme, readme_lines = [''# Title'']\<rparr>"
  let ?out = "[''# Title'', ?o, '''', ''```py'', ''x = 1'', ''```'', '''']"
  have h1: "parse_machine new_machine [''# Title''] code_pattern ?n = Inr ?m"
    by code_simp
  have h2: "state ?m = Readme" by simp
  have h3: "code_pattern ?o = Some ''CODE:tests/examples/readme.py''"
    by code_simp
  have h4: "\<not> is_closer ?o" by code_simp
  have h5: "\<forall>l\<in>set [''old'', ''tail'']. \<not> (code_pattern l \<noteq> None \<and> is_closer l)"
    by code_simp
  have h6: "parse ([''# Title''] @ ?o # [''old'', ''tail'']) code_pattern ?n = Inr ?out"
    by code_simp
  from unterminated_region_drops_rest[OF h1 h2 h3 h4 h5 h6]
  have "parse ([''# Title''] @ [?o]) code_pattern ?n = Inr ?out"
    by blast
  with h6 show ?thesis by simp
qed

text \<open>
  Claim C9 as stated fails when a closing marker of another key follows: the keys of an
  opening and a closing marker are never compared, so the region ends there and the
  lines after it are in the output, although no closing marker of the opener's own key
  follows.
\<close>

theorem unterminated_region_counterexample:
  "parse [''<!-- CODE:a -->'', ''old'', ''<!-- /CODE:b -->'', ''tail'']
      code_pattern [''CODE:a'' \<mapsto> [''A'']]
     = Inr [''<!-- CODE:a -->'', '''', ''A'', '''', ''<!-- /CODE:b -->'', ''tail'']
   \<and> code_pattern ''<!-- CODE:a -->'' = Some ''CODE:a'' \<and> \<not> is_closer ''<!-- CODE:a -->''
   \<and> code_pattern ''old'' = None
   \<and> code_pattern ''<!-- /CODE:b -->'' = Some ''CODE:b'' \<and> ''CODE:b'' \<noteq> ''CODE:a''
   \<and> code_pattern ''tail'' = None"
  by code_simp

lemma parse_line_Inr_cases:
  assumes "parse_line p n m l = Inr m1"
  obtains
    (outside) "p l = None" "state m = Readme"
      "m1 = \<lparr>state = Readme, readme_lines = readme_lines m @ [l]\<rparr>"
  | (inside) "p l = None" "state m = New" "readme_lines m \<noteq> []" "m1 = m"
  | (closer) key where "p l = Some key" "is_closer l" "state m = New"
      "m1 = \<lparr>state = Readme, readme_lines = readme_lines m @ [l]\<rparr>"
  | (opener) key r where "p l = Some key" "\<not> is_closer l" "n key = Some r" "state m = Readme"
      "m1 = \<lparr>state = New, readme_lines = readme_lines m @ l # [] # r @ [[]]\<rparr>"
proof (cases "state m")
  case Readme
  show ?thesis
  proof (cases "p l")
    case None
    from parse_line_outside[where p = p and n = n and m = m, OF None Readme] assms
    have "m1 = \<lparr>state = Readme, readme_lines = readme_lines m @ [l]\<rparr>" by simp
    with None Readme show ?thesis by (rule outside)
  next
    case (Some key)
    show ?thesis
    proof (cases "is_closer l")
      case True
      with Some Readme assms show ?thesis by (simp add: parse_line_def)
    next
      case False
      show ?thesis
      proof (cases "n key")
        case None
        from parse_line_missing_key[where p = p and n = n and m = m, OF Some False None] assms
        show ?thesis by simp
      next
        case (Some r)
        from parse_line_opener[where p = p and n = n and m = m, OF \<open>p l = Some key\<close> False Some Readme]
          assms
        have "m1 = \<lparr>state = New, readme_lines = readme_lines m @ l # [] # r @ [[]]\<rparr>" by simp
        with \<open>p l = Some key\<close> False Some Readme show ?thesis by (rule opener)
      qed
    qed
  qed
next
  case New
  from parse_line_New_Inr[OF assms New] show ?thesis
  proof (elim disjE conjE)
    assume "p l = None" "m1 = m" "readme_lines m \<noteq> []"
    with New show ?thesis by (intro inside)
  next
    assume a: "p l \<noteq> None" "is_closer l"
      "m1 = \<lparr>state = Readme, readme_lines = readme_lines m @ [l]\<rparr>"
    then obtain key where "p l = Some key" by (cases "p l") simp_all
    with a New show ?thesis by (intro closer)
  qed
qed

lemma parse_loop_outside:
  assumes "parse_loop p n m ls = Inr m'"
  shows "\<exists>d. readme_lines m' = readme_lines m @ d \<and> subseq (outside_lines p (state m) ls) d"
  using assms
proof (induction ls arbitrary: m)
  case Nil
  then show ?case by simp
next
  case (Cons l ls)
  from Cons.prems obtain m1 where s: "parse_line p n m l = Inr m1"
    and r: "parse_loop p n m1 ls = Inr m'"
    by (cases "parse_line p n m l") simp_all
  from Cons.IH[OF r] obtain d where d: "readme_lines m' = readme_lines m1 @ d"
    and e: "subseq (outside_lines p (state m1) ls) d" by blast
  from s show ?case
  proof (cases rule: parse_line_Inr_cases)
    case outside
    with d e have "readme_lines m' = readme_lines m @ (l # d)"
      "subseq (outside_lines p (state m) (l # ls)) (l # d)" by simp_all
    then show ?thesis by blast
  next
    case inside
    with d e have "readme_lines m' = readme_lines m @ d"
      "subseq (outside_lines p (state m) (l # ls)) d" by simp_all
    then show ?thesis by blast
  next
    case (closer key)
    with d have 1: "readme_lines m' = readme_lines m @ (l # d)" by simp
    from closer e have "subseq (outside_lines p (state m) (l # ls)) d" by simp
    then have "subseq (outside_lines p (state m) (l # ls)) (l # d)"
      by (rule list_emb_Cons)
    with 1 show ?thesis by blast
  next
    case (opener key r)
    with d have 1: "readme_lines m' = readme_lines m @ ((l # [] # r @ [[]]) @ d)" by simp
    from opener e have "subseq (outside_lines p (state m) (l # ls)) d" by simp
    then have "subseq (outside_lines p (state m) (l # ls)) ((l # [] # r @ [[]]) @ d)"
      by (rule list_emb_append2)
    with 1 show ?thesis by blast
  qed
qed

text \<open>
  Claim C2. The lines outside every marked region, in their order in the input, are
  embedded in the output of the splice unchanged and in that order.
\<close>

theorem passthrough_invariance:
  assumes "parse lines comment_pattern new_text = Inr out"
  shows "subseq (outside_lines comment_pattern Readme lines) out"
proof -
  from assms obtain m where m: "parse_loop comment_pattern new_text new_machine lines = Inr m"
    and out: "readme_lines m = out"
    by (auto simp: parse_Inr_iff parse_machine_new)
  from parse_loop_outside[OF m] out show ?thesis
    by (simp add: new_machine_def)
qed

theorem passthrough_invariance_witness:
  "subseq [''a'', ''b'']
     [''a'', ''<!-- COVERAGE -->'', '''', ''x'', ''y'', '''', ''<!-- /COVERAGE -->'', ''b'']
   \<and> outside_lines coverage_pattern Readme
        [''a'', ''<!-- COVERAGE -->'', ''old'', ''<!-- /COVERAGE -->'', ''b''] = [''a'', ''b'']"
proof -
  let ?n = "[''COVERAGE'' \<mapsto> [''x'', ''y'']] :: new_text"
  let ?ls = "[''a'', ''<!-- COVERAGE -->'', ''old'', ''<!-- /COVERAGE -->'', ''b'']"
  have h: "parse ?ls coverage_pattern ?n
     = Inr [''a'', ''<!-- COVERAGE -->'', '''', ''x'', ''y'', '''', ''<!-- /COVERAGE -->'', ''b'']"
    by (simp add: splice_eval)
  have o: "outside_lines coverage_pattern Readme ?ls = [''a'', ''b'']"
    by (simp add: splice_eval)
  from passthrough_invariance[OF h] o show ?thesis by simp
qed

text \<open>
  Claim C1, amended. An opening marker with key \<open>key\<close> read in the passthrough state,
  and the first closing marker after it, of whatever key: when the splice returns, the
  output holds, right after the output of the lines before, the opening marker, one blank
  line, the lines of the replacement map for \<open>key\<close>, one blank line, and that closing
  marker. The blank lines and the replacement are there as soon as the opening marker is
  read.
\<close>

theorem replacement_completeness:
  assumes "parse_machine new_machine pre comment_pattern new_text = Inr m"
    and "state m = Readme"
    and "comment_pattern opener = Some key" and "\<not> is_closer opener"
    and "\<forall>l\<in>set mid. \<not> (comment_pattern l \<noteq> None \<and> is_closer l)"
    and "comment_pattern closer \<noteq> None" and "is_closer closer"
    and "parse (pre @ opener # mid @ closer # post) comment_pattern new_text = Inr out"
  shows "\<exists>r rest. new_text key = Some r
           \<and> parse (pre @ [opener]) comment_pattern new_text
               = Inr (readme_lines m @ opener # ('''' # r @ ['''']))
           \<and> out = readme_lines m @ opener # ('''' # r @ ['''']) @ closer # rest"
proof -
  let ?p = comment_pattern and ?n = new_text
  have pre: "parse_loop ?p ?n new_machine pre = Inr m"
    using assms(1) by (simp add: parse_machine_new)
  from assms(8) obtain mf where
    mf: "parse_loop ?p ?n new_machine (pre @ opener # mid @ closer # post) = Inr mf"
    and out: "readme_lines mf = out"
    by (auto simp: parse_Inr_iff parse_machine_new)
  from mf pre obtain m1 where s1: "parse_line ?p ?n m opener = Inr m1"
    and r1: "parse_loop ?p ?n m1 (mid @ closer # post) = Inr mf"
    by (cases "parse_line ?p ?n m opener") (simp_all add: parse_loop_append)
  obtain r where r: "new_text key = Some r"
  proof (cases "new_text key")
    case None
    from parse_line_missing_key[where p = ?p and n = ?n and m = m, OF assms(3) assms(4) None] s1
    show ?thesis by simp
  next
    case (Some r)
    then show ?thesis by (rule that)
  qed
  from parse_line_opener[where p = ?p and n = ?n and m = m, OF assms(3) assms(4) r assms(2)] s1
  have m1: "m1 = \<lparr>state = New, readme_lines = readme_lines m @ opener # [] # r @ [[]]\<rparr>"
    by simp
  then have st1: "state m1 = New" by simp
  from r1 obtain m2 where r2: "parse_loop ?p ?n m1 mid = Inr m2"
    and r3: "parse_loop ?p ?n m2 (closer # post) = Inr mf"
    by (cases "parse_loop ?p ?n m1 mid") (simp_all add: parse_loop_append)
  from parse_loop_no_closer[OF r2 st1 assms(5)] have m2: "m2 = m1" by simp
  from r3 m2 obtain m3 where s3: "parse_line ?p ?n m1 closer = Inr m3"
    and r4: "parse_loop ?p ?n m3 post = Inr mf"
    by (cases "parse_line ?p ?n m1 closer") simp_all
  from assms(6) obtain k where k: "comment_pattern closer = Some k"
    by (cases "comment_pattern closer") simp_all
  from parse_line_closer[where p = ?p and n = ?n and m = m1, OF k assms(7) st1] s3
  have m3: "m3 = \<lparr>state = Readme, readme_lines = readme_lines m1 @ [closer]\<rparr>" by simp
  from parse_loop_grows[OF r4] obtain rest where "readme_lines mf = readme_lines m3 @ rest"
    by blast
  with out m3 m1 have o: "out = readme_lines m @ opener # ('''' # r @ ['''']) @ closer # rest"
    by simp
  from parse_loop_snoc_opener[OF pre assms(2) assms(3) assms(4) r]
  have "parse (pre @ [opener]) ?p ?n = Inr (readme_lines m @ opener # ('''' # r @ ['''']))"
    by (simp add: parse_def parse_machine_new)
  with r o show ?thesis by blast
qed

theorem replacement_completeness_witness:
  "parse [''a'', ''<!-- COVERAGE -->'', ''old'', ''<!-- /COVERAGE -->'', ''b'']
      coverage_pattern [''COVERAGE'' \<mapsto> [''x'', ''y'']]
     = Inr [''a'', ''<!-- COVERAGE -->'', '''', ''x'', ''y'', '''', ''<!-- /COVERAGE -->'', ''b'']
   \<and> parse [''a'', ''<!-- COVERAGE -->''] coverage_pattern [''COVERAGE'' \<mapsto> [''x'', ''y'']]
     = Inr [''a'', ''<!-- COVERAGE -->'', '''', ''x'', ''y'', '''']"
proof -
  let ?n = "[''COVERAGE'' \<mapsto> [''x'', ''y'']] :: new_text"
  let ?m = "\<lparr>state = Readme, readme_lines = [''a'']\<rparr>"
  let ?out = "[''a'', ''<!-- COVERAGE -->'', '''', ''x'', ''y'', '''', ''<!-- /COVERAGE -->'', ''b'']"
  have h1: "parse_machine new_machine [''a''] coverage_pattern ?n = Inr ?m"
    by (simp add: splice_eval)
  have h2: "state ?m = Readme" by simp
  have h3: "coverage_pattern ''<!-- COVERAGE -->'' = Some ''COVERAGE''"
    by (simp add: coverage_pattern_def)
  have h4: "\<not> is_closer ''<!-- COVERAGE -->''" by (simp add: splice_eval)
  have h5: "\<forall>l\<in>set [''old'']. \<not> (coverage_pattern l \<noteq> None \<and> is_closer l)"
    by (simp add: coverage_pattern_def)
  have h6: "coverage_pattern ''<!-- /COVERAGE -->'' \<noteq> None"
    by (simp add: coverage_pattern_def)
  have h7: "is_closer ''<!-- /COVERAGE -->''" by (simp add: splice_eval)
  have h8: "parse ([''a''] @ ''<!-- COVERAGE -->'' # [''old''] @ ''<!-- /COVERAGE -->'' # [''b''])
              coverage_pattern ?n = Inr ?out"
    by (simp add: splice_eval)
  from replacement_completeness[OF h1 h2 h3 h4 h5 h6 h7 h8]
  obtain r rest where r: "?n ''COVERAGE'' = Some r"
    and p: "parse ([''a''] @ [''<!-- COVERAGE -->'']) coverage_pattern ?n
              = Inr (readme_lines ?m @ ''<!-- COVERAGE -->'' # ('''' # r @ ['''']))"
    by blast
  from r have "r = [''x'', ''y'']" by simp
  with p h8 show ?thesis by simp
qed

text \<open>
  Claim C1 as stated fails for the opener's own closing marker when markers of two keys
  cross: the region of the first key ends at the closing marker of the second, and the
  output up to the closing marker of the first key holds the lines in between as well.
\<close>

theorem replacement_completeness_counterexample:
  "parse [''<!-- CODE:a -->'', ''old'', ''<!-- /CODE:b -->'', ''keep'',
          ''<!-- CODE:b -->'', ''old2'', ''<!-- /CODE:a -->'']
      code_pattern [''CODE:a'' \<mapsto> [''A''], ''CODE:b'' \<mapsto> [''B'']]
     = Inr (''<!-- CODE:a -->''
            # ['''', ''A'', '''', ''<!-- /CODE:b -->'', ''keep'', ''<!-- CODE:b -->'', '''', ''B'', '''']
            @ [''<!-- /CODE:a -->''])
   \<and> code_pattern ''<!-- CODE:a -->'' = Some ''CODE:a'' \<and> \<not> is_closer ''<!-- CODE:a -->''
   \<and> code_pattern ''<!-- /CODE:a -->'' = Some ''CODE:a'' \<and> is_closer ''<!-- /CODE:a -->''
   \<and> code_pattern ''<!-- /CODE:b -->'' = Some ''CODE:b''
   \<and> ['''', ''A'', '''', ''<!-- /CODE:b -->'', ''keep'', ''<!-- CODE:b -->'', '''', ''B'', '''']
       \<noteq> '''' # [''A''] @ ['''']"
  by code_simp






section \<open>Properties of the tag collector\<close>

lemma search_loop_until_skip:
  assumes "i + int (length pre) \<le> 3"
    and "\<forall>x\<in>set pre. \<not> contains x '':skip_tags:''"
    and "contains l '':skip_tags:''"
  shows "search_loop rx i (pre @ l # post) acc = acc @ matches_from rx i pre"
  using assms
proof (induction pre arbitrary: i acc)
  case Nil
  then show ?case by simp
next
  case (Cons x pre)
  from Cons.prems have a: "(i + 1) + int (length pre) \<le> 3"
    and b: "\<forall>x\<in>set pre. \<not> contains x '':skip_tags:''"
    and c: "\<not> contains x '':skip_tags:''" by simp_all
  show ?case
  proof (cases "rx x")
    case None
    with c Cons.IH[OF a b Cons.prems(3)] show ?thesis by simp
  next
    case (Some tt)
    obtain tg tx where tt: "tt = (tg, tx)" by (cases tt)
    with Some c Cons.IH[OF a b Cons.prems(3)] show ?thesis by simp
  qed
qed

lemma search_loop_no_skip:
  assumes "\<forall>x\<in>set (take (nat (4 - i)) ls). \<not> contains x '':skip_tags:''"
  shows "search_loop rx i ls acc = acc @ matches_from rx i ls"
  using assms
proof (induction ls arbitrary: i acc)
  case Nil
  then show ?case by simp
next
  case (Cons x ls)
  have c: "\<not> (i \<le> 3 \<and> contains x '':skip_tags:'')"
  proof (cases "i \<le> 3")
    case True
    then obtain k where "nat (4 - i) = Suc k" by (cases "nat (4 - i)") simp_all
    with Cons.prems show ?thesis by simp
  next
    case False
    then show ?thesis by simp
  qed
  have b: "\<forall>x\<in>set (take (nat (4 - (i + 1))) ls). \<not> contains x '':skip_tags:''"
  proof (cases "i \<le> 3")
    case True
    then have "nat (4 - i) = Suc (nat (4 - (i + 1)))" by simp
    with Cons.prems show ?thesis by simp
  next
    case False
    then show ?thesis by simp
  qed
  show ?case
  proof (cases "rx x")
    case None
    with c Cons.IH[OF b] show ?thesis by auto
  next
    case (Some tt)
    obtain tg tx where tt: "tt = (tg, tx)" by (cases tt)
    with Some c Cons.IH[OF b] show ?thesis by auto
  qed
qed

text \<open>
  Claim C8. A file whose first line holds \<open>:skip_tags:\<close> yields no tagged comment,
  whatever its later lines hold. The directive counts in the first four lines only: when
  none of them holds it, the scan returns the tagged comments of all lines, those after a
  directive on line five or later too.
\<close>

theorem skip_directive_first_four_lines:
  "(contains first '':skip_tags:'' \<longrightarrow> search_lines (first # rest) regex_compiled = [])
   \<and> ((\<forall>l\<in>set (take 4 lines). \<not> contains l '':skip_tags:'')
        \<longrightarrow> search_lines lines regex_compiled = matches_from regex_compiled 0 lines)"
proof (intro conjI impI)
  assume "contains first '':skip_tags:''"
  then show "search_lines (first # rest) regex_compiled = []"
    by (simp add: search_lines_def)
next
  assume "\<forall>l\<in>set (take 4 lines). \<not> contains l '':skip_tags:''"
  then have "\<forall>l\<in>set (take (nat (4 - 0)) lines). \<not> contains l '':skip_tags:''" by simp
  from search_loop_no_skip[OF this] show "search_lines lines regex_compiled = matches_from regex_compiled 0 lines"
    by (simp add: search_lines_def)
qed

text \<open>
  Claim C10. The first line that holds \<open>:skip_tags:\<close>, when it is one of the first
  four, ends the scan before its own match is recorded, whether the expression matches it
  or not: the result is the tagged comments of the lines strictly before it.
\<close>

theorem skip_line_not_recorded:
  assumes "length pre \<le> 3"
    and "\<forall>l\<in>set pre. \<not> contains l '':skip_tags:''"
    and "contains line '':skip_tags:''"
  shows "search_lines (pre @ line # post) regex_compiled = matches_from regex_compiled 0 pre"
proof -
  from assms(1) have "0 + int (length pre) \<le> 3" by simp
  from search_loop_until_skip[OF this assms(2) assms(3)] show ?thesis
    by (simp add: search_lines_def)
qed

theorem skip_directive_first_four_lines_witness:
  "search_lines [''# :skip_tags:'', ''# TODO: fix this''] COMPILED_RE = []
   \<and> search_lines [''a'', ''b'', ''c'', ''d'', ''# :skip_tags:'', ''# TODO: fix this''] COMPILED_RE
       = [\<lparr>lineno = 6, tag = ''TODO'', comment_text = ''fix this''\<rparr>]"
proof -
  let ?late = "[''a'', ''b'', ''c'', ''d'', ''# :skip_tags:'', ''# TODO: fix this'']"
  have h1: "contains ''# :skip_tags:'' '':skip_tags:''" by code_simp
  have h2: "\<forall>l\<in>set (take 4 ?late). \<not> contains l '':skip_tags:''" by code_simp
  have h3: "matches_from COMPILED_RE 0 ?late
              = [\<lparr>lineno = 6, tag = ''TODO'', comment_text = ''fix this''\<rparr>]" by code_simp
  from skip_directive_first_four_lines[where first = "''# :skip_tags:''"
      and rest = "[''# TODO: fix this'']" and lines = ?late and regex_compiled = COMPILED_RE]
    h1 h2 h3
  show ?thesis by simp
qed

theorem skip_line_not_recorded_witness:
  "COMPILED_RE ''# :skip_tags: NOTE: hidden'' = Some (''NOTE'', ''hidden'')
   \<and> search_lines [''# TODO: fix this'', ''# :skip_tags: NOTE: hidden'', ''# FIXME: later'']
         COMPILED_RE
       = [\<lparr>lineno = 1, tag = ''TODO'', comment_text = ''fix this''\<rparr>]"
proof -
  have h1: "length [''# TODO: fix this''] \<le> 3" by simp
  have h2: "\<forall>l\<in>set [''# TODO: fix this'']. \<not> contains l '':skip_tags:''" by code_simp
  have h3: "contains ''# :skip_tags: NOTE: hidden'' '':skip_tags:''" by code_simp
  have h4: "matches_from COMPILED_RE 0 [''# TODO: fix this'']
              = [\<lparr>lineno = 1, tag = ''TODO'', comment_text = ''fix this''\<rparr>]" by code_simp
  have h5: "COMPILED_RE ''# :skip_tags: NOTE: hidden'' = Some (''NOTE'', ''hidden'')" by code_simp
  from skip_line_not_recorded[OF h1 h2 h3, where post = "[''# FIXME: later'']"
      and regex_compiled = COMPILED_RE] h4 h5
  show ?thesis by simp
qed


section \<open>Properties of the written files\<close>













text \<open>
  Claim C5, at the existing lines \<open>A\<close>, \<open>B\<close>, the divider, \<open>C\<close>, \<open>D\<close>: the text written
  has \<open>C\<close> on the line of the divider, with no newline between them; it is not the text
  of the claim, where the divider is a line of its own.
\<close>

theorem merge_joins_suffix_to_divider:
  "(let generated = LOGGER_CONFIG (replicate 3 (CHR 0x22) @ ''pkg.'' @ replicate 3 (CHR 0x22))
                      ''1'' ''pkg'' @ [newline];
        existing = ''A'' @ [newline] @ ''B'' @ [newline] @ INIT_DIVIDER @ [newline]
                     @ ''C'' @ [newline] @ ''D''
    in write_pkg_init ''pkg'' ''1'' existing
         = generated @ INIT_DIVIDER @ ''C'' @ [newline] @ ''D'' @ [newline]
       \<and> write_pkg_init ''pkg'' ''1'' existing
         \<noteq> strip (generated @ INIT_DIVIDER @ [newline] @ ''C'' @ [newline] @ ''D'') @ [newline])"
  by code_simp

text \<open>
  Claim C6, at a file that holds the generated text, the divider and one user line: the
  first merge joins the user line to the divider; the second merge no longer finds the
  divider as a line and writes the generated text and the divider alone.
\<close>

theorem merge_twice_loses_user_text:
  "(let generated = LOGGER_CONFIG (replicate 3 (CHR 0x22) @ ''pkg.'' @ replicate 3 (CHR 0x22))
                      ''1'' ''pkg'' @ [newline];
        existing = generated @ INIT_DIVIDER @ [newline] @ ''x = 1'' @ [newline];
        once = write_pkg_init ''pkg'' ''1'' existing;
        twice = write_pkg_init ''pkg'' ''1'' once
    in once = generated @ INIT_DIVIDER @ ''x = 1'' @ [newline]
       \<and> twice = generated @ INIT_DIVIDER @ [newline]
       \<and> twice \<noteq> once)"
  by code_simp

end
